theory Spec2Isabelle
  imports Complex_Main "HOL-Library.Stream"
begin

section \<open>The UCB1 bandit of \<^verbatim>\<open>bandits_trauma.ipynb\<close>\<close>

text \<open>
  The notebook defines \<^verbatim>\<open>ind_max\<close>, the class \<^verbatim>\<open>UCB1\<close> (methods
  \<^verbatim>\<open>initialize\<close>, \<^verbatim>\<open>select_arm\<close>, \<^verbatim>\<open>update\<close>), the environment
  \<^verbatim>\<open>SimpleEmergency\<close> and the two drivers \<^verbatim>\<open>train_UCB1\<close> and
  \<^verbatim>\<open>bandit_vs_AB\<close>.

  Python integers are \<^typ>\<open>int\<close>. Python floats are modelled as \<^typ>\<open>real\<close>: rounding,
  overflow and NaN are outside the model, so every statement about a computed value is a
  statement over exact arithmetic. The one exception is the selection among the scores,
  where rounding decides which arm is returned: \<open>select_arm_with\<close> gives
  \<^verbatim>\<open>select_arm\<close> again with the floating-point operations as parameters, and
  \<open>binary64\<close> instantiates them with IEEE 754 double precision. Exceptions are values of
  \<open>py_error\<close>. A method of the
  agent returns its result together with the agent as the call leaves it, also when it
  raises, because \<^verbatim>\<open>update\<close> writes \<^verbatim>\<open>self.counts\<close> before it can fail.
\<close>

subsection \<open>Python lists and exceptions\<close>

datatype py_error = IndexError | ValueError | ZeroDivisionError

text \<open>
  \<^verbatim>\<open>xs[i]\<close>: an index in \<open>[0, len)\<close> is used as it is, an index in \<open>[-len, 0)\<close> counts
  from the end, any other raises \<^verbatim>\<open>IndexError\<close> (here \<open>None\<close>).
\<close>

definition py_index :: "'a list \<Rightarrow> int \<Rightarrow> nat option" where
  "py_index xs i =
     (let n = int (length xs)
      in if 0 \<le> i \<and> i < n then Some (nat i)
         else if - n \<le> i \<and> i < 0 then Some (nat (n + i))
         else None)"

text \<open>\<^verbatim>\<open>range(n)\<close> is empty for \<open>n \<le> 0\<close>.\<close>

definition py_range :: "int \<Rightarrow> nat list" where
  "py_range n = [0..<nat n]"

text \<open>
  \<^verbatim>\<open>x.index(m)\<close>: the first position holding a value equal to \<open>m\<close>;
  \<^verbatim>\<open>ValueError\<close> (here \<open>None\<close>) when there is none.
\<close>

fun list_index :: "'a list \<Rightarrow> 'a \<Rightarrow> nat option" where
  "list_index [] m = None"
| "list_index (y # ys) m =
     (if y = m then Some 0
      else (case list_index ys m of None \<Rightarrow> None | Some i \<Rightarrow> Some (Suc i)))"

text \<open>
  \<^verbatim>\<open>max(x)\<close> keeps the first item and replaces it by a later one only when the later one
  is strictly greater; on an empty list it raises \<^verbatim>\<open>ValueError\<close>.
\<close>

definition py_max :: "real list \<Rightarrow> py_error + real" where
  "py_max x =
     (case x of [] \<Rightarrow> Inl ValueError
      | y # ys \<Rightarrow> Inr (fold (\<lambda>v m. if m < v then v else m) ys y))"

definition ind_max :: "real list \<Rightarrow> py_error + nat" where
  "ind_max x =
     (case py_max x of Inl e \<Rightarrow> Inl e
      | Inr m \<Rightarrow> (case list_index x m of None \<Rightarrow> Inl ValueError | Some i \<Rightarrow> Inr i))"

subsection \<open>The agent\<close>

text \<open>
  \<^verbatim>\<open>self.counts\<close> and \<^verbatim>\<open>self.values\<close>. The second field is called \<open>vals\<close> because
  \<open>values\<close> is a reserved word of the theory language.
\<close>

record ucb1 =
  counts :: "int list"
  vals :: "real list"

text \<open>
  \<^verbatim>\<open>initialize\<close>: both lists are comprehensions over \<^verbatim>\<open>range(n_arms)\<close>; nothing checks
  \<^verbatim>\<open>n_arms\<close>.
\<close>

definition initialize :: "int \<Rightarrow> ucb1" where
  "initialize n_arms =
     \<lparr>counts = map (\<lambda>col. 0) (py_range n_arms), vals = map (\<lambda>col. 0) (py_range n_arms)\<rparr>"

text \<open>
  The constructor \<^verbatim>\<open>UCB1(n_arms)\<close> calls \<^verbatim>\<open>initialize\<close> and returns; it has no
  \<^verbatim>\<open>raise\<close>, so its result is always on the right.
\<close>

definition UCB1 :: "int \<Rightarrow> py_error + ucb1" where
  "UCB1 n_arms = Inr (initialize n_arms)"

text \<open>
  The first loop of \<^verbatim>\<open>select_arm\<close>: return the first arm of the range whose count is 0.
\<close>

fun first_untried :: "int list \<Rightarrow> nat list \<Rightarrow> nat option" where
  "first_untried cs [] = None"
| "first_untried cs (arm # arms) =
     (if cs ! arm = 0 then Some arm else first_untried cs arms)"

text \<open>
  \<^verbatim>\<open>math.sqrt((2 * math.log(total_counts)) / float(count))\<close>: \<^verbatim>\<open>math.log\<close> raises
  \<^verbatim>\<open>ValueError\<close> on an argument that is not positive, the float division raises
  \<^verbatim>\<open>ZeroDivisionError\<close> on a zero count, \<^verbatim>\<open>math.sqrt\<close> raises \<^verbatim>\<open>ValueError\<close> on a
  negative argument.
\<close>

definition bonus :: "int \<Rightarrow> int \<Rightarrow> py_error + real" where
  "bonus total_counts c =
     (if total_counts \<le> 0 then Inl ValueError
      else if c = 0 then Inl ZeroDivisionError
      else (let q = (2 * ln (real_of_int total_counts)) / real_of_int c
            in if q < 0 then Inl ValueError else Inr (sqrt q)))"

text \<open>
  The second loop of \<^verbatim>\<open>select_arm\<close>: for each arm of the range, compute the bonus, read
  \<^verbatim>\<open>self.values[arm]\<close> and store the sum in \<^verbatim>\<open>ucb_values[arm]\<close>.
\<close>

fun ucb_loop :: "ucb1 \<Rightarrow> int \<Rightarrow> nat list \<Rightarrow> real list \<Rightarrow> py_error + real list" where
  "ucb_loop self total_counts [] ucb_values = Inr ucb_values"
| "ucb_loop self total_counts (arm # arms) ucb_values =
     (case bonus total_counts (counts self ! arm) of
        Inl e \<Rightarrow> Inl e
      | Inr b \<Rightarrow>
          if arm < length (vals self)
          then ucb_loop self total_counts arms (ucb_values[arm := vals self ! arm + b])
          else Inl IndexError)"

text \<open>
  The middle of \<^verbatim>\<open>select_arm\<close>: \<^verbatim>\<open>ucb_values\<close> starts as a list of zeros,
  \<^verbatim>\<open>total_counts = sum(self.counts)\<close>, and the second loop fills the list.
\<close>

definition ucb_values :: "ucb1 \<Rightarrow> py_error + real list" where
  "ucb_values self =
     (let n_arms = int (length (counts self));
          ucb_values0 = map (\<lambda>arm. 0) (py_range n_arms);
          total_counts = sum_list (counts self)
      in ucb_loop self total_counts (py_range n_arms) ucb_values0)"

text \<open>
  \<^verbatim>\<open>select_arm\<close>: the cold-start loop, then \<^verbatim>\<open>ind_max(ucb_values)\<close>. The method
  assigns no attribute of \<^verbatim>\<open>self\<close>; the agent it leaves is returned beside the result.
\<close>

definition select_arm :: "ucb1 \<Rightarrow> (py_error + nat) \<times> ucb1" where
  "select_arm self =
     (let n_arms = int (length (counts self))
      in case first_untried (counts self) (py_range n_arms) of
           Some arm \<Rightarrow> (Inr arm, self)
         | None \<Rightarrow>
             (case ucb_values self of
                Inl e \<Rightarrow> (Inl e, self)
              | Inr ucb_values' \<Rightarrow> (ind_max ucb_values', self)))"

text \<open>
  The right-hand side of \<^verbatim>\<open>new_value = ((n - 1) / float(n)) * value + (1 / float(n)) * reward\<close>.
\<close>

definition new_value :: "int \<Rightarrow> real \<Rightarrow> real \<Rightarrow> real" where
  "new_value n v reward =
     (real_of_int (n - 1) / real_of_int n) * v + (1 / real_of_int n) * reward"

text \<open>
  \<^verbatim>\<open>update\<close>: the read of \<^verbatim>\<open>self.counts[chosen_arm]\<close> comes first and can raise
  \<^verbatim>\<open>IndexError\<close>; the count is then written; \<^verbatim>\<open>self.values[chosen_arm]\<close> is read; the
  division by \<^verbatim>\<open>float(n)\<close> raises \<^verbatim>\<open>ZeroDivisionError\<close> when \<open>n = 0\<close>; the value is
  written last.
\<close>

definition update :: "ucb1 \<Rightarrow> int \<Rightarrow> real \<Rightarrow> (py_error + unit) \<times> ucb1" where
  "update self chosen_arm reward =
     (case py_index (counts self) chosen_arm of
        None \<Rightarrow> (Inl IndexError, self)
      | Some j \<Rightarrow>
          (let self1 = self\<lparr>counts := (counts self)[j := counts self ! j + 1]\<rparr>;
               n = counts self1 ! j
           in case py_index (vals self1) chosen_arm of
                None \<Rightarrow> (Inl IndexError, self1)
              | Some k \<Rightarrow>
                  (let v = vals self1 ! k
                   in if n = 0 then (Inl ZeroDivisionError, self1)
                      else (Inr (),
                            self1\<lparr>vals := (vals self1)[k := new_value n v reward]\<rparr>))))"

text \<open>
  The score of an arm as a formula: \<open>value[arm] + sqrt(2 * ln(total) / count[arm])\<close> with
  \<open>total\<close> the sum of the counts of the agent. It is a closed form for what
  \<open>ucb_values\<close> stores at \<open>arm\<close>, used to state properties of the selection.
\<close>

definition ucb_score :: "ucb1 \<Rightarrow> nat \<Rightarrow> real" where
  "ucb_score self arm =
     vals self ! arm
       + sqrt ((2 * ln (real_of_int (sum_list (counts self)))) / real_of_int (counts self ! arm))"

subsection \<open>The selection in double precision\<close>



text \<open>
  The floating-point operations \<^verbatim>\<open>select_arm\<close> uses, in the order of line 173 and 174:
  \<^verbatim>\<open>float(n)\<close> (also the conversion of \<^verbatim>\<open>total_counts\<close> inside \<^verbatim>\<open>math.log\<close>),
  \<^verbatim>\<open>math.log\<close>, the product with 2, the division, \<^verbatim>\<open>math.sqrt\<close> and the sum with the
  arm's value.
\<close>

record float_ops =
  to_float :: "int \<Rightarrow> real"
  f_log :: "real \<Rightarrow> real"
  f_mul :: "real \<Rightarrow> real \<Rightarrow> real"
  f_div :: "real \<Rightarrow> real \<Rightarrow> real"
  f_sqrt :: "real \<Rightarrow> real"
  f_add :: "real \<Rightarrow> real \<Rightarrow> real"

text \<open>
  The bonus, the second loop and \<^verbatim>\<open>select_arm\<close> once more, line by line as \<open>bonus\<close>,
  \<open>ucb_loop\<close>, \<open>ucb_values\<close> and \<open>select_arm\<close> above, with every arithmetic operation
  taken from \<open>ops\<close>. \<^verbatim>\<open>math.log\<close> tests the sign of its integer argument before it
  converts it; the division tests its converted divisor.
\<close>

definition bonus_with :: "float_ops \<Rightarrow> int \<Rightarrow> int \<Rightarrow> py_error + real" where
  "bonus_with ops total_counts c =
     (if total_counts \<le> 0 then Inl ValueError
      else if to_float ops c = 0 then Inl ZeroDivisionError
      else (let q = f_div ops (f_mul ops 2 (f_log ops (to_float ops total_counts)))
                      (to_float ops c)
            in if q < 0 then Inl ValueError else Inr (f_sqrt ops q)))"

fun ucb_loop_with ::
  "float_ops \<Rightarrow> ucb1 \<Rightarrow> int \<Rightarrow> nat list \<Rightarrow> real list \<Rightarrow> py_error + real list" where
  "ucb_loop_with ops self total_counts [] acc = Inr acc"
| "ucb_loop_with ops self total_counts (arm # arms) acc =
     (case bonus_with ops total_counts (counts self ! arm) of
        Inl e \<Rightarrow> Inl e
      | Inr b \<Rightarrow>
          if arm < length (vals self)
          then ucb_loop_with ops self total_counts arms
                 (acc[arm := f_add ops (vals self ! arm) b])
          else Inl IndexError)"

definition ucb_values_with :: "float_ops \<Rightarrow> ucb1 \<Rightarrow> py_error + real list" where
  "ucb_values_with ops self =
     (let n_arms = int (length (counts self));
          ucb_values0 = map (\<lambda>arm. 0) (py_range n_arms);
          total_counts = sum_list (counts self)
      in ucb_loop_with ops self total_counts (py_range n_arms) ucb_values0)"

definition select_arm_with :: "float_ops \<Rightarrow> ucb1 \<Rightarrow> (py_error + nat) \<times> ucb1" where
  "select_arm_with ops self =
     (let n_arms = int (length (counts self))
      in case first_untried (counts self) (py_range n_arms) of
           Some arm \<Rightarrow> (Inr arm, self)
         | None \<Rightarrow>
             (case ucb_values_with ops self of
                Inl e \<Rightarrow> (Inl e, self)
              | Inr ucb_values' \<Rightarrow> (ind_max ucb_values', self)))"

text \<open>The operations over the reals, with which the definitions above are those of the agent.\<close>

definition exact_ops :: float_ops where
  "exact_ops =
     \<lparr>to_float = real_of_int, f_log = ln, f_mul = (\<lambda>x y. x * y), f_div = (\<lambda>x y. x / y),
      f_sqrt = sqrt, f_add = (\<lambda>x y. x + y)\<rparr>"



text \<open>
  What the selection needs of the operations to raise nothing when every count is at
  least 1: the conversion of a positive integer is at least 1, the logarithm of a number
  from 1 on is not negative, and products and quotients of non-negative numbers are not
  negative.
\<close>

definition sign_rules :: "float_ops \<Rightarrow> bool" where
  "sign_rules ops \<longleftrightarrow>
     (\<forall>n. 1 \<le> n \<longrightarrow> 1 \<le> to_float ops n)
     \<and> (\<forall>x. 1 \<le> x \<longrightarrow> 0 \<le> f_log ops x)
     \<and> (\<forall>x y. 0 \<le> x \<and> 0 \<le> y \<longrightarrow> 0 \<le> f_mul ops x y)
     \<and> (\<forall>x y. 0 \<le> x \<and> 0 < y \<longrightarrow> 0 \<le> f_div ops x y)"

subsection \<open>The update rule as the specification words it\<close>

text \<open>
  The specification's \<open>record\<close> states the rule as
  \<^verbatim>\<open>value[i] = value[i] + (reward - value[i]) / count[i]\<close>, with \<open>count[i]\<close> already
  incremented. This definition follows those words, to be compared with \<open>new_value\<close>.
\<close>

definition spec_incremental_mean :: "int \<Rightarrow> real \<Rightarrow> real \<Rightarrow> real" where
  "spec_incremental_mean n v reward = v + (reward - v) / real_of_int n"

subsection \<open>Sequences of calls\<close>

text \<open>
  One round per reward of the list: \<^verbatim>\<open>arm = agent.select_arm()\<close> followed by
  \<^verbatim>\<open>agent.update(arm, r)\<close>. The arms selected are collected in order; an exception
  ends the run.
\<close>

fun select_update_rounds :: "ucb1 \<Rightarrow> real list \<Rightarrow> (py_error + nat list) \<times> ucb1" where
  "select_update_rounds self [] = (Inr [], self)"
| "select_update_rounds self (r # rs) =
     (case select_arm self of
        (Inl e, self1) \<Rightarrow> (Inl e, self1)
      | (Inr arm, self1) \<Rightarrow>
          (case update self1 (int arm) r of
             (Inl e, self2) \<Rightarrow> (Inl e, self2)
           | (Inr u, self2) \<Rightarrow>
               (case select_update_rounds self2 rs of
                  (Inl e, self3) \<Rightarrow> (Inl e, self3)
                | (Inr arms, self3) \<Rightarrow> (Inr (arm # arms), self3))))"

text \<open>
  \<^verbatim>\<open>agent.update(i, r)\<close> for each reward of the list in turn, on one fixed index.
\<close>

fun update_all :: "ucb1 \<Rightarrow> int \<Rightarrow> real list \<Rightarrow> (py_error + unit) \<times> ucb1" where
  "update_all self i [] = (Inr (), self)"
| "update_all self i (r # rs) =
     (case update self i r of
        (Inl e, self1) \<Rightarrow> (Inl e, self1)
      | (Inr u, self1) \<Rightarrow> update_all self1 i rs)"

subsection \<open>The environment\<close>

text \<open>
  The module \<^verbatim>\<open>random\<close> is a source of draws that the functions below consume:
  \<^verbatim>\<open>random.choice\<close> takes the next element of \<open>choices\<close> (reduced modulo the length
  of the sequence), \<^verbatim>\<open>random.random()\<close> the next element of \<open>uniforms\<close>. Nothing is
  assumed about the draws, so every property below holds for every outcome of the
  randomness.
\<close>

record rng =
  choices :: "nat stream"
  uniforms :: "real stream"

definition random_choice :: "'a list \<Rightarrow> rng \<Rightarrow> (py_error + 'a) \<times> rng" where
  "random_choice seq g =
     (if seq = [] then (Inl IndexError, g)
      else (Inr (seq ! (shd (choices g) mod length seq)), g\<lparr>choices := stl (choices g)\<rparr>))"

definition random_random :: "rng \<Rightarrow> real \<times> rng" where
  "random_random g = (shd (uniforms g), g\<lparr>uniforms := stl (uniforms g)\<rparr>)"

text \<open>
  The module-level list \<^verbatim>\<open>emergency_type = ['stab', 'gunshot']\<close>; the attribute of the
  same name of a \<^verbatim>\<open>SimpleEmergency\<close> is the field of the record.
\<close>

definition emergency_type_list :: "string list" where
  "emergency_type_list = [''stab'', ''gunshot'']"

record simple_emergency =
  emergency_type :: string

definition SimpleEmergency :: "rng \<Rightarrow> (py_error + simple_emergency) \<times> rng" where
  "SimpleEmergency g =
     (case random_choice emergency_type_list g of
        (Inl e, g1) \<Rightarrow> (Inl e, g1)
      | (Inr t, g1) \<Rightarrow> (Inr \<lparr>emergency_type = t\<rparr>, g1))"

text \<open>
  \<^verbatim>\<open>apply_treatment\<close>: four branches on the pair of emergency type and treatment, each
  drawing one uniform number and comparing it with the branch's threshold. A treatment that
  is neither \<^verbatim>\<open>'basic'\<close> nor \<^verbatim>\<open>'advanced'\<close> falls through every branch: the method
  returns \<^verbatim>\<open>None\<close> and draws nothing.
\<close>

definition apply_treatment :: "simple_emergency \<Rightarrow> string \<Rightarrow> rng \<Rightarrow> bool option \<times> rng" where
  "apply_treatment self treatment g =
     (if emergency_type self = ''stab'' \<and> treatment = ''basic'' then
        (case random_random g of (u, g1) \<Rightarrow> (if 6 / 10 < u then Some True else Some False, g1))
      else if emergency_type self = ''stab'' \<and> treatment = ''advanced'' then
        (case random_random g of (u, g1) \<Rightarrow> (if 5 / 10 < u then Some True else Some False, g1))
      else if emergency_type self = ''gunshot'' \<and> treatment = ''basic'' then
        (case random_random g of (u, g1) \<Rightarrow> (if 75 / 100 < u then Some True else Some False, g1))
      else if emergency_type self = ''gunshot'' \<and> treatment = ''advanced'' then
        (case random_random g of (u, g1) \<Rightarrow> (if 45 / 100 < u then Some True else Some False, g1))
      else (None, g))"

text \<open>The test \<^verbatim>\<open>if success:\<close> on a value that is \<^verbatim>\<open>True\<close>, \<^verbatim>\<open>False\<close> or \<^verbatim>\<open>None\<close>.\<close>

definition truthy :: "bool option \<Rightarrow> bool" where
  "truthy b = (b = Some True)"

subsection \<open>The drivers\<close>

text \<open>
  The loop of \<^verbatim>\<open>train_UCB1\<close> over \<^verbatim>\<open>range(trials)\<close>: a new emergency, the agent's
  choice, the treatment \<^verbatim>\<open>arm_labels[action]\<close>, and the update with reward 1.0 or 0.0.
\<close>

fun train_loop :: "string list \<Rightarrow> nat list \<Rightarrow> ucb1 \<Rightarrow> rng \<Rightarrow> (py_error + ucb1) \<times> rng" where
  "train_loop arm_labels [] bandit g = (Inr bandit, g)"
| "train_loop arm_labels (t # ts) bandit g =
     (case SimpleEmergency g of
        (Inl err, g1) \<Rightarrow> (Inl err, g1)
      | (Inr e, g1) \<Rightarrow>
          (case select_arm bandit of
             (Inl err, bandit1) \<Rightarrow> (Inl err, g1)
           | (Inr action, bandit1) \<Rightarrow>
               (case py_index arm_labels (int action) of
                  None \<Rightarrow> (Inl IndexError, g1)
                | Some l \<Rightarrow>
                    (case apply_treatment e (arm_labels ! l) g1 of
                       (success, g2) \<Rightarrow>
                         (case (if truthy success then update bandit1 (int action) 1
                                else update bandit1 (int action) 0) of
                            (Inl err, bandit2) \<Rightarrow> (Inl err, g2)
                          | (Inr u, bandit2) \<Rightarrow> train_loop arm_labels ts bandit2 g2)))))"

definition train_UCB1 :: "int \<Rightarrow> string list \<Rightarrow> rng \<Rightarrow> (py_error + ucb1) \<times> rng" where
  "train_UCB1 trials arm_labels g =
     (case UCB1 (int (length arm_labels)) of
        Inl err \<Rightarrow> (Inl err, g)
      | Inr bandit \<Rightarrow> train_loop arm_labels (py_range trials) bandit g)"

text \<open>
  The loop of \<^verbatim>\<open>bandit_vs_AB\<close>: the agent's trial as in \<^verbatim>\<open>train_UCB1\<close>, with its score
  counted, then the alternating treatment \<^verbatim>\<open>treatments[0]\<close> or \<^verbatim>\<open>treatments[1]\<close> by
  the parity of \<open>i\<close>, applied to the same emergency with a draw of its own.
\<close>

fun AB_loop :: "string list \<Rightarrow> nat list \<Rightarrow> ucb1 \<Rightarrow> int \<Rightarrow> int \<Rightarrow> rng
                  \<Rightarrow> (py_error + int \<times> int) \<times> rng" where
  "AB_loop treatments [] bandit bandit_score AB_score g = (Inr (bandit_score, AB_score), g)"
| "AB_loop treatments (i # is) bandit bandit_score AB_score g =
     (case SimpleEmergency g of
        (Inl err, g1) \<Rightarrow> (Inl err, g1)
      | (Inr e, g1) \<Rightarrow>
          (case select_arm bandit of
             (Inl err, bandit1) \<Rightarrow> (Inl err, g1)
           | (Inr action, bandit1) \<Rightarrow>
               (case py_index treatments (int action) of
                  None \<Rightarrow> (Inl IndexError, g1)
                | Some l \<Rightarrow>
                    (case apply_treatment e (treatments ! l) g1 of
                       (bandit_success, g2) \<Rightarrow>
                         (case (if truthy bandit_success then update bandit1 (int action) 1
                                else update bandit1 (int action) 0) of
                            (Inl err, bandit2) \<Rightarrow> (Inl err, g2)
                          | (Inr u, bandit2) \<Rightarrow>
                              (let bandit_score1 =
                                     (if truthy bandit_success then bandit_score + 1
                                      else bandit_score)
                               in case py_index treatments (if i mod 2 = 0 then 0 else 1) of
                                    None \<Rightarrow> (Inl IndexError, g2)
                                  | Some m \<Rightarrow>
                                      (case apply_treatment e (treatments ! m) g2 of
                                         (AB_success, g3) \<Rightarrow>
                                           AB_loop treatments is bandit2 bandit_score1
                                             (if truthy AB_success then AB_score + 1
                                              else AB_score) g3)))))))"

text \<open>
  \<^verbatim>\<open>bandit_vs_AB\<close> takes no argument: it fixes \<^verbatim>\<open>trials = 1000\<close> and
  \<^verbatim>\<open>treatments = ['basic', 'advanced']\<close>. Its body is given first with the two local
  constants as parameters, then at the values the source gives them.
\<close>

definition bandit_vs_AB_with :: "int \<Rightarrow> string list \<Rightarrow> rng \<Rightarrow> (py_error + int \<times> int) \<times> rng" where
  "bandit_vs_AB_with trials treatments g =
     (case UCB1 (int (length treatments)) of
        Inl err \<Rightarrow> (Inl err, g)
      | Inr bandit \<Rightarrow> AB_loop treatments (py_range trials) bandit 0 0 g)"

definition bandit_vs_AB :: "rng \<Rightarrow> (py_error + int \<times> int) \<times> rng" where
  "bandit_vs_AB g = bandit_vs_AB_with 1000 [''basic'', ''advanced''] g"

subsection \<open>Well-formed agents\<close>

text \<open>
  What \<^verbatim>\<open>initialize\<close> establishes and \<^verbatim>\<open>update\<close> at a valid index keeps: both lists
  have \<open>K\<close> entries and no count is negative.
\<close>

definition wf_agent :: "nat \<Rightarrow> ucb1 \<Rightarrow> bool" where
  "wf_agent K a \<longleftrightarrow>
     length (counts a) = K \<and> length (vals a) = K \<and> (\<forall>c\<in>set (counts a). 0 \<le> c)"

section \<open>Auxiliary facts\<close>

subsection \<open>Lists\<close>

lemma py_index_nat: "k < length xs \<Longrightarrow> py_index xs (int k) = Some k"
  by (simp add: py_index_def)

lemma py_index_out: "int (length xs) \<le> i \<or> i < - int (length xs) \<Longrightarrow> py_index xs i = None"
  by (auto simp add: py_index_def Let_def)

lemma py_range_int [simp]: "py_range (int n) = [0..<n]"
  by (simp add: py_range_def)

lemma first_untried_None: "first_untried cs arms = None \<longleftrightarrow> (\<forall>a\<in>set arms. cs ! a \<noteq> 0)"
  by (induction arms) auto

lemma first_untried_upt:
  "first_untried cs [k..<n] = Some a \<longleftrightarrow> k \<le> a \<and> a < n \<and> cs ! a = 0 \<and> (\<forall>j. k \<le> j \<and> j < a \<longrightarrow> cs ! j \<noteq> 0)"
proof (induction "n - k" arbitrary: k)
  case 0
  then show ?case by auto
next
  case (Suc d)
  then have kn: "k < n" and d: "d = n - Suc k" by auto
  have upt: "[k..<n] = k # [Suc k..<n]" using kn by (simp add: upt_conv_Cons)
  show ?case
  proof (cases "cs ! k = 0")
    case True
    then show ?thesis using kn upt by (auto simp: le_less)
  next
    case False
    have "first_untried cs [k..<n] = first_untried cs [Suc k..<n]"
      using False upt by simp
    also have "\<dots> = Some a \<longleftrightarrow> Suc k \<le> a \<and> a < n \<and> cs ! a = 0 \<and> (\<forall>j. Suc k \<le> j \<and> j < a \<longrightarrow> cs ! j \<noteq> 0)"
      using Suc.hyps(1) [OF d] .
    finally show ?thesis using False
      by (metis Suc_leD Suc_leI le_neq_implies_less)
  qed
qed

lemma py_max_fold: "(\<lambda>v m::real. if m < v then v else m) = max"
  by (auto simp: fun_eq_iff max_def)

lemma py_max_Max:
  assumes "x \<noteq> []"
  shows "py_max x = Inr (Max (set x))"
proof (cases x)
  case Nil
  then show ?thesis using assms by simp
next
  case (Cons y ys)
  have "Max (set (y # ys)) = fold max ys y" by (rule Max.set_eq_fold)
  then show ?thesis using Cons by (simp add: py_max_def py_max_fold)
qed

lemma list_index_first:
  "m \<in> set x \<Longrightarrow> \<exists>i. list_index x m = Some i \<and> i < length x \<and> x ! i = m \<and> (\<forall>j<i. x ! j \<noteq> m)"
proof (induction x)
  case Nil
  then show ?case by simp
next
  case (Cons y ys)
  show ?case
  proof (cases "y = m")
    case True
    then show ?thesis by simp
  next
    case False
    with Cons obtain i where i: "list_index ys m = Some i" "i < length ys" "ys ! i = m" "\<forall>j<i. ys ! j \<noteq> m"
      by auto
    have "\<forall>j<Suc i. (y # ys) ! j \<noteq> m"
      using False i(4) by (auto simp: nth_Cons split: nat.splits)
    then show ?thesis using False i by simp
  qed
qed

lemma ind_max_first:
  assumes "x \<noteq> []"
  shows "\<exists>i. ind_max x = Inr i \<and> i < length x \<and> x ! i = Max (set x) \<and> (\<forall>j<i. x ! j < x ! i)"
proof -
  have "Max (set x) \<in> set x" using assms by simp
  from list_index_first [OF this] obtain i where
    i: "list_index x (Max (set x)) = Some i" "i < length x" "x ! i = Max (set x)"
       "\<forall>j<i. x ! j \<noteq> Max (set x)" by blast
  have "x ! j < x ! i" if "j < i" for j
  proof -
    have "x ! j \<in> set x" using that i(2) by simp
    then have "x ! j \<le> Max (set x)" by simp
    then show ?thesis using i(3,4) that by fastforce
  qed
  then show ?thesis using i assms by (simp add: ind_max_def py_max_Max)
qed
subsection \<open>The selection\<close>

lemma bonus_ok:
  assumes "1 \<le> tot" "1 \<le> c"
  shows "bonus tot c = Inr (sqrt ((2 * ln (real_of_int tot)) / real_of_int c))"
proof -
  have "0 \<le> ln (real_of_int tot)" using assms(1) by simp
  then have "0 \<le> (2 * ln (real_of_int tot)) / real_of_int c"
    using assms(2) by simp
  then have "\<not> (2 * ln (real_of_int tot)) / real_of_int c < 0"
    by (simp only: not_less)
  moreover have "\<not> tot \<le> 0" "c \<noteq> 0" using assms by simp_all
  ultimately show ?thesis unfolding bonus_def Let_def by (simp only: if_False)
qed

lemma ucb_loop_fold:
  assumes "1 \<le> tot"
    and "\<forall>a\<in>set arms. a < length (vals self) \<and> 1 \<le> counts self ! a"
  shows "ucb_loop self tot arms us =
     Inr (fold (\<lambda>a u. u[a := vals self ! a
            + sqrt ((2 * ln (real_of_int tot)) / real_of_int (counts self ! a))]) arms us)"
  using assms(2)
proof (induction arms arbitrary: us)
  case Nil
  then show ?case by simp
next
  case (Cons a arms)
  then show ?case using assms(1) by (simp add: bonus_ok)
qed

lemma fold_update_upt:
  "k \<le> length us \<Longrightarrow> fold (\<lambda>a u. u[a := f a]) [0..<k] us = map f [0..<k] @ drop k us"
proof (induction k)
  case 0
  then show ?case by simp
next
  case (Suc k)
  then have k: "k < length us" by simp
  have "fold (\<lambda>a u. u[a := f a]) [0..<Suc k] us = (map f [0..<k] @ drop k us)[k := f k]"
    using Suc by simp
  also have "\<dots> = map f [0..<k] @ (drop k us)[0 := f k]"
    by (simp add: list_update_append)
  also have "(drop k us)[0 := f k] = f k # drop (Suc k) us"
    using k by (simp add: Cons_nth_drop_Suc [symmetric])
  finally show ?case by simp
qed

lemma sum_list_ge_length:
  "\<forall>c\<in>set cs. (1::int) \<le> c \<Longrightarrow> int (length cs) \<le> sum_list cs"
  by (induction cs) auto

lemma ucb_values_scores:
  assumes ne: "counts a \<noteq> []"
    and len: "length (vals a) = length (counts a)"
    and pos: "\<forall>c\<in>set (counts a). 1 \<le> c"
  shows "ucb_values a = Inr (map (ucb_score a) [0..<length (counts a)])"
proof -
  let ?n = "length (counts a)"
  have nth: "1 \<le> counts a ! i" if "i < ?n" for i using pos that by simp
  have tot: "1 \<le> sum_list (counts a)"
    using sum_list_ge_length [OF pos] ne by (cases "counts a") auto
  have arms: "\<forall>i\<in>set [0..<?n]. i < length (vals a) \<and> 1 \<le> counts a ! i"
    using nth len by simp
  have "ucb_loop a (sum_list (counts a)) [0..<?n] (map (\<lambda>arm. 0) [0..<?n])
          = Inr (map (ucb_score a) [0..<?n])"
    unfolding ucb_loop_fold [OF tot arms]
    by (subst fold_update_upt) (simp_all add: ucb_score_def)
  then show ?thesis by (simp add: ucb_values_def)
qed

lemma select_arm_ucb:
  assumes ne: "counts a \<noteq> []"
    and len: "length (vals a) = length (counts a)"
    and pos: "\<forall>c\<in>set (counts a). 1 \<le> c"
  shows "select_arm a = (ind_max (map (ucb_score a) [0..<length (counts a)]), a)"
proof -
  let ?n = "length (counts a)"
  have nth: "1 \<le> counts a ! i" if "i < ?n" for i using pos that by simp
  have none: "first_untried (counts a) [0..<?n] = None"
    using nth by (fastforce simp: first_untried_None)
  have "ucb_values a = Inr (map (ucb_score a) [0..<?n])"
    using assms by (rule ucb_values_scores)
  then show ?thesis using none by (simp add: select_arm_def)
qed

lemma select_arm_cold:
  assumes "i < length (counts a)" "counts a ! i = 0"
  shows "\<exists>k. select_arm a = (Inr k, a) \<and> k \<le> i \<and> counts a ! k = 0 \<and> (\<forall>j<k. counts a ! j \<noteq> 0)"
proof -
  have "first_untried (counts a) [0..<length (counts a)] \<noteq> None"
    using assms by (auto simp: first_untried_None)
  then obtain k where k: "first_untried (counts a) [0..<length (counts a)] = Some k" by auto
  then have "k < length (counts a) \<and> counts a ! k = 0 \<and> (\<forall>j<k. counts a ! j \<noteq> 0)"
    by (simp add: first_untried_upt)
  moreover from this have "k \<le> i" using assms by (meson not_le_imp_less)
  ultimately show ?thesis using k by (simp add: select_arm_def)
qed

lemma select_arm_in_range:
  assumes ne: "counts a \<noteq> []"
    and len: "length (vals a) = length (counts a)"
    and nonneg: "\<forall>c\<in>set (counts a). 0 \<le> c"
  shows "\<exists>k<length (counts a). select_arm a = (Inr k, a)"
proof (cases "\<exists>i<length (counts a). counts a ! i = 0")
  case True
  then obtain i where "i < length (counts a)" "counts a ! i = 0" by blast
  from select_arm_cold [OF this] show ?thesis
    using \<open>i < length (counts a)\<close> by (meson le_less_trans)
next
  case False
  have pos: "\<forall>c\<in>set (counts a). 1 \<le> c"
  proof
    fix c assume c: "c \<in> set (counts a)"
    then obtain i where "i < length (counts a)" "counts a ! i = c"
      by (auto simp: in_set_conv_nth)
    then have "c \<noteq> 0" using False by auto
    then show "1 \<le> c" using nonneg c by fastforce
  qed
  have "map (ucb_score a) [0..<length (counts a)] \<noteq> []" using ne by simp
  from ind_max_first [OF this] show ?thesis
    using select_arm_ucb [OF ne len pos] by auto
qed

lemma sum_list_update_int:
  "i < length cs \<Longrightarrow> sum_list (cs[i := x]) = sum_list cs - cs ! i + (x::int)"
proof (induction cs arbitrary: i)
  case Nil
  then show ?case by simp
next
  case (Cons c cs)
  then show ?case by (cases i) simp_all
qed

lemma sum_list_others:
  assumes "\<forall>c\<in>set cs. (1::int) \<le> c" "i < length cs"
  shows "int (length cs) - 1 \<le> sum_list cs - cs ! i"
proof -
  have "\<forall>c\<in>set (cs[i := 1]). 1 \<le> c"
    using assms(1) by (auto dest!: set_update_subset_insert [THEN subsetD])
  from sum_list_ge_length [OF this] show ?thesis
    using assms(2) by (simp add: sum_list_update_int)
qed

subsection \<open>The update\<close>

lemma update_ok:
  assumes "k < length (counts a)" "length (vals a) = length (counts a)" "0 \<le> counts a ! k"
  shows "update a (int k) r =
     (Inr (), \<lparr>counts = (counts a)[k := counts a ! k + 1],
               vals = (vals a)[k := new_value (counts a ! k + 1) (vals a ! k) r]\<rparr>)"
  using assms by (simp add: update_def py_index_nat Let_def)

lemma initialize_int: "initialize (int K) = \<lparr>counts = replicate K 0, vals = replicate K 0\<rparr>"
  by (simp add: initialize_def map_replicate_const)

lemma cold_rounds:
  assumes "length vs = j + length rs"
  shows "fst (select_update_rounds \<lparr>counts = replicate j 1 @ replicate (length rs) 0, vals = vs\<rparr> rs)
           = Inr [j..<j + length rs]"
  using assms
proof (induction rs arbitrary: j vs)
  case Nil
  then show ?case by simp
next
  case (Cons r rs)
  let ?a = "\<lparr>counts = replicate j 1 @ replicate (length (r # rs)) 0, vals = vs\<rparr>"
  have jlen: "j < length (counts ?a)" and zero: "counts ?a ! j = 0"
    by (simp_all add: nth_append)
  from select_arm_cold [OF jlen zero] obtain k where
    k: "select_arm ?a = (Inr k, ?a)" "k \<le> j" "counts ?a ! k = 0" by blast
  have "k = j"
  proof (rule ccontr)
    assume "k \<noteq> j"
    then have "k < j" using k(2) by simp
    then have "counts ?a ! k = 1" by (simp add: nth_append)
    then show False using k(3) by simp
  qed
  have upd: "update ?a (int j) r =
     (Inr (), \<lparr>counts = replicate (Suc j) 1 @ replicate (length rs) 0,
               vals = vs[j := new_value 1 (vs ! j) r]\<rparr>)"
    using Cons.prems
    by (subst update_ok) (simp_all add: nth_append list_update_append replicate_append_same)
  have rest: "fst (select_update_rounds \<lparr>counts = replicate (Suc j) 1 @ replicate (length rs) 0,
               vals = vs[j := new_value 1 (vs ! j) r]\<rparr> rs) = Inr [Suc j..<Suc j + length rs]"
    using Cons.prems by (intro Cons.IH) simp
  have upt: "[j..<j + length (r # rs)] = j # [Suc j..<Suc j + length rs]"
    by (simp add: upt_rec)
  have sel: "select_arm ?a = (Inr j, ?a)" using k(1) \<open>k = j\<close> by simp
  obtain res a3 where run: "select_update_rounds \<lparr>counts = replicate (Suc j) 1 @ replicate (length rs) 0,
               vals = vs[j := new_value 1 (vs ! j) r]\<rparr> rs = (res, a3)"
    by (cases "select_update_rounds \<lparr>counts = replicate (Suc j) 1 @ replicate (length rs) 0,
               vals = vs[j := new_value 1 (vs ! j) r]\<rparr> rs")
  then have res: "res = Inr [Suc j..<Suc j + length rs]" using rest by simp
  have "select_update_rounds ?a (r # rs) = (Inr (j # [Suc j..<Suc j + length rs]), a3)"
    by (simp only: select_update_rounds.simps sel upd run res prod.case sum.case)
  then show ?case by (simp only: upt fst_conv)
qed

lemma new_value_times:
  "n \<noteq> 0 \<Longrightarrow> new_value n v r * real_of_int n = v * real_of_int (n - 1) + r"
  by (simp add: new_value_def field_simps)

lemma update_all_mean:
  assumes "k < length (counts a)" "length (vals a) = length (counts a)" "0 \<le> counts a ! k"
  shows "\<exists>a'. update_all a (int k) rs = (Inr (), a')
            \<and> length (counts a') = length (counts a) \<and> length (vals a') = length (counts a)
            \<and> counts a' ! k = counts a ! k + int (length rs)
            \<and> vals a' ! k * real_of_int (counts a' ! k)
                = vals a ! k * real_of_int (counts a ! k) + sum_list rs"
  using assms
proof (induction rs arbitrary: a)
  case Nil
  then show ?case by simp
next
  case (Cons r rs)
  let ?n = "counts a ! k + 1"
  let ?b = "\<lparr>counts = (counts a)[k := ?n], vals = (vals a)[k := new_value ?n (vals a ! k) r]\<rparr>"
  have upd: "update a (int k) r = (Inr (), ?b)"
    using Cons.prems by (rule update_ok)
  have b: "k < length (counts ?b)" "length (vals ?b) = length (counts ?b)" "0 \<le> counts ?b ! k"
    using Cons.prems by simp_all
  from Cons.IH [OF b] obtain a' where a':
    "update_all ?b (int k) rs = (Inr (), a')"
    "length (counts a') = length (counts ?b)" "length (vals a') = length (counts ?b)"
    "counts a' ! k = counts ?b ! k + int (length rs)"
    "vals a' ! k * real_of_int (counts a' ! k)
       = vals ?b ! k * real_of_int (counts ?b ! k) + sum_list rs"
    by blast
  have n: "?n \<noteq> 0" using Cons.prems(3) by linarith
  have step: "new_value ?n (vals a ! k) r * real_of_int ?n
                = vals a ! k * real_of_int (counts a ! k) + r"
    using new_value_times [OF n, of "vals a ! k" r] by simp
  have "vals ?b ! k * real_of_int (counts ?b ! k) = vals a ! k * real_of_int (counts a ! k) + r"
    using Cons.prems step by simp
  with a' upd Cons.prems show ?case by simp
qed

subsection \<open>The exploration bonus\<close>

lemma ln_ratio_decreasing:
  fixes s x y :: real
  assumes s: "1 \<le> s" and x: "1 \<le> x" and xy: "x < y"
  shows "ln (s + y) / y < ln (s + x) / x"
proof -
  let ?t = "s + x"
  have t: "0 < ?t" using s x by simp
  have d: "0 < (y - x) / ?t" using xy t by simp
  have "ln (1 + (y - x) / ?t) < (y - x) / ?t"
    using d by (rule ln_add_one_self_less_self)
  moreover have "1 + (y - x) / ?t = (s + y) / ?t"
    using t by (simp add: field_simps)
  moreover have "ln ((s + y) / ?t) = ln (s + y) - ln ?t"
    using t s xy x by (intro ln_divide_pos) simp_all
  ultimately have step: "ln (s + y) < ln ?t + (y - x) / ?t" by simp
  have "ln (1 / ?t) \<le> 1 / ?t - 1"
    using t by (intro ln_le_minus_one) simp
  moreover have "ln (1 / ?t) = - ln ?t" using t by (simp add: ln_divide_pos)
  ultimately have low: "1 - 1 / ?t \<le> ln ?t" by simp
  have "x / ?t \<le> (?t - 1) / ?t" using s t by (intro divide_right_mono) simp_all
  also have "\<dots> = 1 - 1 / ?t" using t by (simp add: diff_divide_distrib)
  finally have "x / ?t \<le> 1 - 1 / ?t" .
  then have xt: "x / ?t \<le> ln ?t" using low by simp
  have "x * ln (s + y) < x * (ln ?t + (y - x) / ?t)"
    using step x by simp
  also have "\<dots> = x * ln ?t + (y - x) * (x / ?t)" by (simp add: algebra_simps)
  also have "\<dots> \<le> x * ln ?t + (y - x) * ln ?t"
  proof -
    have "(y - x) * (x / ?t) \<le> (y - x) * ln ?t"
      using xt xy by (intro mult_left_mono) simp_all
    then show ?thesis by (simp only: add_left_mono)
  qed
  also have "\<dots> = y * ln ?t" by (simp add: algebra_simps)
  finally have "x * ln (s + y) < y * ln ?t" .
  then show ?thesis using x xy by (simp add: field_simps)
qed

subsection \<open>The loops of the drivers\<close>

lemma SimpleEmergency_ok: "\<exists>e g1. SimpleEmergency g = (Inr e, g1)"
  by (simp add: SimpleEmergency_def random_choice_def emergency_type_list_def)

lemma wf_initialize: "wf_agent K (initialize (int K))"
  by (simp add: wf_agent_def initialize_int)

lemma wf_select_arm:
  assumes "wf_agent K a" "0 < K"
  shows "\<exists>k<K. select_arm a = (Inr k, a)"
proof -
  have "counts a \<noteq> []" "length (vals a) = length (counts a)" "\<forall>c\<in>set (counts a). 0 \<le> c"
    using assms by (auto simp: wf_agent_def)
  from select_arm_in_range [OF this] show ?thesis using assms(1) by (simp add: wf_agent_def)
qed

lemma wf_update:
  assumes "wf_agent K a" "k < K"
  shows "\<exists>a'. update a (int k) r = (Inr (), a') \<and> wf_agent K a'
           \<and> sum_list (counts a') = sum_list (counts a) + 1"
proof -
  have h: "k < length (counts a)" "length (vals a) = length (counts a)" "0 \<le> counts a ! k"
    using assms by (auto simp: wf_agent_def)
  have "\<forall>c\<in>set ((counts a)[k := counts a ! k + 1]). 0 \<le> c"
    using assms h(3) by (auto simp: wf_agent_def dest!: set_update_subset_insert [THEN subsetD])
  then show ?thesis
    using assms h(1) unfolding update_ok [OF h]
    by (simp add: wf_agent_def sum_list_update_int)
qed

lemma train_loop_counts:
  assumes "wf_agent (length arm_labels) b" "arm_labels \<noteq> []"
  shows "\<exists>b' g'. train_loop arm_labels ts b g = (Inr b', g') \<and> wf_agent (length arm_labels) b'
            \<and> sum_list (counts b') = sum_list (counts b) + int (length ts)"
  using assms(1)
proof (induction ts arbitrary: b g)
  case Nil
  then show ?case by simp
next
  case (Cons t ts)
  let ?K = "length arm_labels"
  obtain e g1 where e: "SimpleEmergency g = (Inr e, g1)"
    using SimpleEmergency_ok by blast
  obtain k where k: "k < ?K" "select_arm b = (Inr k, b)"
    using wf_select_arm [OF Cons.prems] assms(2) by auto
  have idx: "py_index arm_labels (int k) = Some k" using k(1) by (rule py_index_nat)
  obtain success g2 where s: "apply_treatment e (arm_labels ! k) g1 = (success, g2)"
    by (cases "apply_treatment e (arm_labels ! k) g1")
  obtain b2 where b2: "(if truthy success then update b (int k) 1 else update b (int k) 0) = (Inr (), b2)"
    "wf_agent ?K b2" "sum_list (counts b2) = sum_list (counts b) + 1"
    using wf_update [OF Cons.prems k(1), of 1] wf_update [OF Cons.prems k(1), of 0]
    by (cases "truthy success") auto
  from Cons.IH [OF b2(2), of g2] obtain b' g' where
    r: "train_loop arm_labels ts b2 g2 = (Inr b', g')" "wf_agent ?K b'"
       "sum_list (counts b') = sum_list (counts b2) + int (length ts)" by blast
  have "train_loop arm_labels (t # ts) b g = (Inr b', g')"
    by (simp only: train_loop.simps e k(2) idx s b2(1) r(1) prod.case sum.case option.case)
  then show ?case using r(2,3) b2(3) by simp
qed

lemma AB_loop_bounds:
  assumes "wf_agent 2 b" "length treatments = 2"
  shows "\<exists>bs ab g'. AB_loop treatments is b bs0 ab0 g = (Inr (bs, ab), g')
            \<and> bs0 \<le> bs \<and> bs \<le> bs0 + int (length is)
            \<and> ab0 \<le> ab \<and> ab \<le> ab0 + int (length is)"
  using assms(1)
proof (induction "is" arbitrary: b bs0 ab0 g)
  case Nil
  then show ?case by simp
next
  case (Cons i "is")
  obtain e g1 where e: "SimpleEmergency g = (Inr e, g1)"
    using SimpleEmergency_ok by blast
  obtain k where k: "k < 2" "select_arm b = (Inr k, b)"
    using wf_select_arm [OF Cons.prems] by auto
  have idx: "py_index treatments (int k) = Some k"
    using k(1) assms(2) by (intro py_index_nat) simp
  obtain success g2 where s: "apply_treatment e (treatments ! k) g1 = (success, g2)"
    by (cases "apply_treatment e (treatments ! k) g1")
  obtain b2 where b2: "(if truthy success then update b (int k) 1 else update b (int k) 0) = (Inr (), b2)"
    "wf_agent 2 b2"
    using wf_update [OF Cons.prems k(1), of 1] wf_update [OF Cons.prems k(1), of 0]
    by (cases "truthy success") auto
  define m where "m = (if i mod 2 = 0 then 0 else 1::nat)"
  have idx2: "py_index treatments (if i mod 2 = 0 then 0 else 1) = Some m"
    using assms(2) by (simp add: m_def py_index_def)
  obtain AB_success g3 where s2: "apply_treatment e (treatments ! m) g2 = (AB_success, g3)"
    by (cases "apply_treatment e (treatments ! m) g2")
  define bs1 where "bs1 = (if truthy success then bs0 + 1 else bs0)"
  define ab1 where "ab1 = (if truthy AB_success then ab0 + 1 else ab0)"
  from Cons.IH [OF b2(2), of bs1 ab1 g3] obtain bs ab g' where
    r: "AB_loop treatments is b2 bs1 ab1 g3 = (Inr (bs, ab), g')"
       "bs1 \<le> bs" "bs \<le> bs1 + int (length is)" "ab1 \<le> ab" "ab \<le> ab1 + int (length is)"
    by blast
  have "AB_loop treatments (i # is) b bs0 ab0 g = (Inr (bs, ab), g')"
    by (simp only: AB_loop.simps e k(2) idx s b2(1) idx2 s2 r(1) Let_def
          bs1_def [symmetric] ab1_def [symmetric] prod.case sum.case option.case)
  moreover have "bs0 \<le> bs1" "bs1 \<le> bs0 + 1" "ab0 \<le> ab1" "ab1 \<le> ab0 + 1"
    by (simp_all add: bs1_def ab1_def)
  ultimately show ?case using r(2-5) by simp
qed

subsection \<open>Rounding to binary64\<close>
















subsection \<open>The selection in double precision\<close>

lemma sign_rules_exact: "sign_rules exact_ops"
  by (simp add: sign_rules_def exact_ops_def)





lemma exact_ops_sel:
  "to_float exact_ops = real_of_int" "f_log exact_ops = ln"
  "f_mul exact_ops = (\<lambda>x y. x * y)" "f_div exact_ops = (\<lambda>x y. x / y)"
  "f_sqrt exact_ops = sqrt" "f_add exact_ops = (\<lambda>x y. x + y)"
  by (simp_all add: exact_ops_def)

lemma bonus_with_exact: "bonus_with exact_ops tot c = bonus tot c"
  by (simp add: bonus_with_def bonus_def exact_ops_sel Let_def)

lemma ucb_loop_with_exact: "ucb_loop_with exact_ops self tot arms us = ucb_loop self tot arms us"
  by (induction arms arbitrary: us)
    (simp_all add: bonus_with_exact exact_ops_sel split: sum.splits)

lemma ucb_values_with_exact: "ucb_values_with exact_ops a = ucb_values a"
  by (simp add: ucb_values_with_def ucb_values_def ucb_loop_with_exact)

lemma select_arm_with_exact: "select_arm_with exact_ops a = select_arm a"
  by (simp add: select_arm_with_def select_arm_def ucb_values_with_exact cong: option.case_cong)


section \<open>Properties\<close>

subsection \<open>Cold start\<close>

text \<open>
  C1. On a fresh agent with \<open>K\<close> arms, \<open>K\<close> rounds of \<^verbatim>\<open>select_arm\<close>, each followed by
  an update of the selected arm with any reward, select the arms \<open>0, 1, ..., K - 1\<close> in
  this order and raise nothing. And on any agent in which some arm \<open>i\<close> has count 0,
  \<^verbatim>\<open>select_arm\<close> returns the lowest index whose count is 0.
\<close>

theorem cold_start_order:
  "fst (select_update_rounds (initialize (int (length rs))) rs) = Inr [0..<length rs]
   \<and> (i < length (counts a) \<and> counts a ! i = 0 \<longrightarrow>
        (\<exists>k\<le>i. select_arm a = (Inr k, a) \<and> counts a ! k = 0 \<and> (\<forall>j<k. counts a ! j \<noteq> 0)))"
proof
  show "fst (select_update_rounds (initialize (int (length rs))) rs) = Inr [0..<length rs]"
    using cold_rounds [of "replicate (length rs) 0" 0 rs] by (simp add: initialize_int)
  show "i < length (counts a) \<and> counts a ! i = 0 \<longrightarrow>
        (\<exists>k\<le>i. select_arm a = (Inr k, a) \<and> counts a ! k = 0 \<and> (\<forall>j<k. counts a ! j \<noteq> 0))"
    using select_arm_cold [of i a] by blast
qed

theorem cold_start_order_witness:
  "fst (select_update_rounds (initialize (int (length [1, 0, 1::real]))) [1, 0, 1]) = Inr [0..<length [1, 0, 1::real]]
   \<and> (1 < length (counts \<lparr>counts = [2, 0, 0], vals = [1, 0, 0]\<rparr>)
      \<and> counts \<lparr>counts = [2, 0, 0], vals = [1, 0, 0]\<rparr> ! 1 = 0)
   \<and> (\<exists>k\<le>1. select_arm \<lparr>counts = [2, 0, 0], vals = [1, 0, 0]\<rparr>
                 = (Inr k, \<lparr>counts = [2, 0, 0], vals = [1, 0, 0]\<rparr>)
          \<and> counts \<lparr>counts = [2, 0, 0], vals = [1, 0, 0]\<rparr> ! k = 0
          \<and> (\<forall>j<k. counts \<lparr>counts = [2, 0, 0], vals = [1, 0, 0]\<rparr> ! j \<noteq> 0))"
  using cold_start_order [of "[1, 0, 1]" 1 "\<lparr>counts = [2, 0, 0], vals = [1, 0, 0]\<rparr>"]
  by simp

subsection \<open>Selection by upper confidence bound\<close>




subsection \<open>The running mean\<close>

text \<open>
  C3. On a fresh agent with \<open>K\<close> arms, feeding the rewards \<open>r\<^sub>1, ..., r\<^sub>n\<close> (\<open>n \<ge> 1\<close>) to one
  arm \<open>i\<close> of \<open>[0, K)\<close> by successive calls of \<^verbatim>\<open>update\<close> raises nothing and leaves
  \<open>value[i]\<close> equal to the arithmetic mean \<open>(r\<^sub>1 + ... + r\<^sub>n) / n\<close> and \<open>count[i]\<close> equal
  to \<open>n\<close>, over exact arithmetic.
\<close>

theorem update_incremental_mean:
  assumes "0 \<le> i" "i < K" "rs \<noteq> []"
  shows "\<exists>a. update_all (initialize K) i rs = (Inr (), a)
           \<and> vals a ! nat i = sum_list rs / real (length rs)
           \<and> counts a ! nat i = int (length rs)"
proof -
  obtain k n where k: "i = int k" and K: "K = int n" and kn: "k < n"
    using assms(1,2) by (metis nat_less_iff not_less zero_le_imp_eq_int le_less_trans less_imp_le)
  let ?a = "initialize K"
  have a: "k < length (counts ?a)" "length (vals ?a) = length (counts ?a)" "0 \<le> counts ?a ! k"
    using kn by (simp_all add: K initialize_int)
  from update_all_mean [OF a, of rs] obtain a' where a':
    "update_all ?a (int k) rs = (Inr (), a')"
    "counts a' ! k = counts ?a ! k + int (length rs)"
    "vals a' ! k * real_of_int (counts a' ! k)
       = vals ?a ! k * real_of_int (counts ?a ! k) + sum_list rs"
    by blast
  have c: "counts a' ! k = int (length rs)" using a'(2) kn by (simp add: K initialize_int)
  have "vals a' ! k * real (length rs) = sum_list rs"
    using a'(3) c kn by (simp add: K initialize_int)
  moreover have "real (length rs) \<noteq> 0" using assms(3) by simp
  ultimately have "vals a' ! k = sum_list rs / real (length rs)"
    by (simp add: field_simps)
  then show ?thesis using a'(1) c k by auto
qed

theorem update_incremental_mean_witness:
  "(0::int) \<le> 1 \<and> (1::int) < 2 \<and> [1, 0, 1 / 2 :: real] \<noteq> []
   \<and> (\<exists>a. update_all (initialize 2) 1 [1, 0, 1 / 2] = (Inr (), a)
          \<and> vals a ! nat 1 = sum_list [1, 0, 1 / 2] / real (length [1, 0, 1 / 2 :: real])
          \<and> counts a ! nat 1 = int (length [1, 0, 1 / 2 :: real]))"
  using update_incremental_mean [of 1 2 "[1, 0, 1 / 2]"] by simp

text \<open>
  C4. The assignment the code makes, \<open>((n - 1) / n) * v + (1 / n) * r\<close>, equals the
  incremental mean \<open>v + (r - v) / n\<close> the specification prescribes, for every old value
  \<open>v\<close>, every reward \<open>r\<close> and every post-increment count \<open>n \<ge> 1\<close>.
\<close>

theorem new_value_is_incremental_mean:
  "1 \<le> n \<Longrightarrow> new_value n v r = spec_incremental_mean n v r"
  by (simp add: new_value_def spec_incremental_mean_def field_simps)

theorem new_value_is_incremental_mean_witness:
  "(1::int) \<le> 4 \<and> new_value 4 (1/2) 1 = spec_incremental_mean 4 (1/2) 1"
  using new_value_is_incremental_mean [of 4 "1/2" 1] by simp

subsection \<open>Decay of the exploration bonus\<close>

text \<open>
  C5, as stated, fails on an agent with a single arm: the total is then the arm's own
  count, the score at count 1 is \<open>value + sqrt(2 * ln 1 / 1) = value\<close>, and raising the
  count to 2 raises the score to \<open>value + sqrt(ln 2)\<close>.
\<close>

theorem single_arm_score_counterexample:
  "ucb_values \<lparr>counts = [1], vals = [0]\<rparr> = Inr [0]
   \<and> ucb_values \<lparr>counts = [2], vals = [0]\<rparr> = Inr [sqrt (ln 2)]
   \<and> (0::real) < sqrt (ln 2)"
proof -
  have "(0::real) \<le> ln 2" by simp
  then have "bonus 2 2 = Inr (sqrt (ln 2))"
    by (simp add: bonus_def Let_def not_less [symmetric])
  moreover have "bonus 1 1 = Inr 0"
    by (simp add: bonus_def)
  ultimately show ?thesis
    by (simp add: ucb_values_def py_range_def)
qed

text \<open>
  C5, amended. On an agent with at least two arms whose counts are all at least 1, with
  the values and the other counts held fixed, replacing \<open>count[i]\<close> by a strictly larger
  count strictly decreases the score \<^verbatim>\<open>select_arm\<close> computes for arm \<open>i\<close>, the total
  being the sum of the counts with the larger \<open>count[i]\<close>.
\<close>

theorem score_decreases_with_count:
  assumes two: "2 \<le> length (counts a)"
    and len: "length (vals a) = length (counts a)"
    and pos: "\<forall>c\<in>set (counts a). 1 \<le> c"
    and i: "i < length (counts a)"
    and more: "counts a ! i < c'"
  shows "\<exists>us us'. ucb_values a = Inr us
           \<and> ucb_values (a\<lparr>counts := (counts a)[i := c']\<rparr>) = Inr us'
           \<and> us' ! i < us ! i"
proof -
  let ?a' = "a\<lparr>counts := (counts a)[i := c']\<rparr>"
  let ?c = "counts a ! i"
  let ?s = "sum_list (counts a) - ?c"
  have ne: "counts a \<noteq> []" using two by auto
  have c: "1 \<le> ?c" using pos i by simp
  have pos': "\<forall>c\<in>set (counts ?a'). 1 \<le> c"
    using pos c more by (auto dest!: set_update_subset_insert [THEN subsetD])
  have us: "ucb_values a = Inr (map (ucb_score a) [0..<length (counts a)])"
    using ne len pos by (rule ucb_values_scores)
  have us': "ucb_values ?a' = Inr (map (ucb_score ?a') [0..<length (counts ?a')])"
    using pos' ne len by (intro ucb_values_scores) simp_all
  define s where "s = real_of_int (sum_list (counts a)) - real_of_int ?c"
  have s: "1 \<le> s"
  proof -
    have "1 \<le> sum_list (counts a) - ?c" using sum_list_others [OF pos i] two by simp
    then have "1 \<le> real_of_int (sum_list (counts a) - ?c)" by (simp only: of_int_1_le_iff)
    then show ?thesis by (simp add: s_def)
  qed
  have e: "real_of_int (sum_list (counts a)) = s + real_of_int ?c"
    by (simp add: s_def)
  have e': "real_of_int (sum_list (counts ?a')) = s + real_of_int c'"
    using i by (simp add: sum_list_update_int s_def)
  have "ln (s + real_of_int c') / real_of_int c' < ln (s + real_of_int ?c) / real_of_int ?c"
    using s c more by (intro ln_ratio_decreasing) simp_all
  then have lt: "ln (real_of_int (sum_list (counts ?a'))) / real_of_int c'
          < ln (real_of_int (sum_list (counts a))) / real_of_int ?c"
    by (simp only: e e')
  have "2 * (ln (real_of_int (sum_list (counts ?a'))) / real_of_int c')
          < 2 * (ln (real_of_int (sum_list (counts a))) / real_of_int ?c)"
    using lt by simp
  then have "(2 * ln (real_of_int (sum_list (counts ?a')))) / real_of_int c'
          < (2 * ln (real_of_int (sum_list (counts a)))) / real_of_int ?c"
    by (simp only: times_divide_eq_right)
  then have "sqrt ((2 * ln (real_of_int (sum_list (counts ?a')))) / real_of_int c')
          < sqrt ((2 * ln (real_of_int (sum_list (counts a)))) / real_of_int ?c)"
    by (simp only: real_sqrt_less_iff)
  then have "ucb_score ?a' i < ucb_score a i"
    using i by (simp add: ucb_score_def)
  then show ?thesis using us us' i by simp
qed

theorem score_decreases_with_count_witness:
  "2 \<le> length (counts \<lparr>counts = [1, 1], vals = [0, 0]\<rparr>)
   \<and> length (vals \<lparr>counts = [1, 1], vals = [0, 0]\<rparr>) = length (counts \<lparr>counts = [1, 1], vals = [0, 0]\<rparr>)
   \<and> list_all (\<lambda>c. 1 \<le> c) (counts \<lparr>counts = [1, 1], vals = [0, 0]\<rparr>)
   \<and> 0 < length (counts \<lparr>counts = [1, 1], vals = [0, 0]\<rparr>)
   \<and> counts \<lparr>counts = [1, 1], vals = [0, 0]\<rparr> ! 0 < 2
   \<and> (\<exists>us us'. ucb_values \<lparr>counts = [1, 1], vals = [0, 0]\<rparr> = Inr us
           \<and> ucb_values \<lparr>counts = [2, 1], vals = [0, 0]\<rparr> = Inr us'
           \<and> us' ! 0 < us ! 0)"
  using score_decreases_with_count [of "\<lparr>counts = [1, 1], vals = [0, 0]\<rparr>" 0 2]
  by simp

subsection \<open>Frame of the selection\<close>

text \<open>
  C6. \<^verbatim>\<open>select_arm\<close> leaves the agent, its counts and its values, as it found it, and a
  second call with no update in between returns what the first call returned.
\<close>

theorem select_arm_pure_read:
  "snd (select_arm a) = a \<and> fst (select_arm (snd (select_arm a))) = fst (select_arm a)"
proof -
  have "snd (select_arm a) = a"
    by (simp add: select_arm_def Let_def split: option.splits sum.splits)
  then show ?thesis by simp
qed

subsection \<open>The comparison run\<close>

text \<open>
  C7. For a list of two treatments and \<open>trials \<ge> 0\<close>, the comparison run raises nothing
  and returns a pair of integers, each between 0 and \<open>trials\<close>; so does
  \<^verbatim>\<open>bandit_vs_AB\<close> itself with its 1000 trials; and one trial, from any agent with two
  arms and no negative count, leaves each of the two scores unchanged or greater by one.
  This holds for every outcome of the random draws.
\<close>

theorem bandit_vs_AB_bounded:
  "(0 \<le> trials \<and> length treatments = 2 \<longrightarrow>
      (\<exists>bs ab. fst (bandit_vs_AB_with trials treatments g) = Inr (bs, ab)
          \<and> 0 \<le> bs \<and> bs \<le> trials \<and> 0 \<le> ab \<and> ab \<le> trials))
   \<and> (\<exists>bs ab. fst (bandit_vs_AB g) = Inr (bs, ab)
          \<and> 0 \<le> bs \<and> bs \<le> 1000 \<and> 0 \<le> ab \<and> ab \<le> 1000)
   \<and> (length (counts b) = 2 \<and> length (vals b) = 2 \<and> (\<forall>c\<in>set (counts b). 0 \<le> c)
        \<and> length treatments = 2 \<longrightarrow>
      (\<exists>bs ab. fst (AB_loop treatments [i] b bs0 ab0 g) = Inr (bs, ab)
          \<and> (bs = bs0 \<or> bs = bs0 + 1) \<and> (ab = ab0 \<or> ab = ab0 + 1)))"
proof -
  have run: "\<exists>bs ab. fst (bandit_vs_AB_with n ts g) = Inr (bs, ab)
          \<and> 0 \<le> bs \<and> bs \<le> n \<and> 0 \<le> ab \<and> ab \<le> n"
    if "0 \<le> n" "length ts = 2" for n ts
  proof -
    have "wf_agent 2 (initialize (int 2))" by (rule wf_initialize)
    from AB_loop_bounds [OF this that(2), of "py_range n" 0 0 g] obtain bs ab g' where
      "AB_loop ts (py_range n) (initialize (int 2)) 0 0 g = (Inr (bs, ab), g')"
      "0 \<le> bs" "bs \<le> 0 + int (length (py_range n))"
      "0 \<le> ab" "ab \<le> 0 + int (length (py_range n))"
      by blast
    then show ?thesis using that
      by (simp add: bandit_vs_AB_with_def UCB1_def py_range_def)
  qed
  have one: "\<exists>bs ab. fst (AB_loop treatments [i] b bs0 ab0 g) = Inr (bs, ab)
          \<and> (bs = bs0 \<or> bs = bs0 + 1) \<and> (ab = ab0 \<or> ab = ab0 + 1)"
    if "length (counts b) = 2" "length (vals b) = 2" "\<forall>c\<in>set (counts b). 0 \<le> c"
       "length treatments = 2"
  proof -
    have "wf_agent 2 b" using that by (simp add: wf_agent_def)
    from AB_loop_bounds [OF this that(4), of "[i]" bs0 ab0 g] obtain bs ab g' where
      "AB_loop treatments [i] b bs0 ab0 g = (Inr (bs, ab), g')"
      "bs0 \<le> bs" "bs \<le> bs0 + int (length [i])" "ab0 \<le> ab" "ab \<le> ab0 + int (length [i])"
      by blast
    moreover from this have "bs = bs0 \<or> bs = bs0 + 1" "ab = ab0 \<or> ab = ab0 + 1"
      by auto
    ultimately show ?thesis by simp
  qed
  have "\<exists>bs ab. fst (bandit_vs_AB g) = Inr (bs, ab)
          \<and> 0 \<le> bs \<and> bs \<le> 1000 \<and> 0 \<le> ab \<and> ab \<le> 1000"
    unfolding bandit_vs_AB_def by (rule run) simp_all
  then show ?thesis using run [of trials treatments] one by blast
qed

theorem bandit_vs_AB_bounded_witness:
  "((0::int) \<le> 3 \<and> length [''basic'', ''advanced''] = 2)
   \<and> (\<exists>bs ab. fst (bandit_vs_AB_with 3 [''basic'', ''advanced''] \<lparr>choices = sconst 0, uniforms = sconst (7 / 10)\<rparr>) = Inr (bs, ab)
          \<and> 0 \<le> bs \<and> bs \<le> 3 \<and> 0 \<le> ab \<and> ab \<le> 3)
   \<and> (length (counts \<lparr>counts = [1, 0], vals = [1, 0]\<rparr>) = 2 \<and> length (vals \<lparr>counts = [1, 0], vals = [1, 0]\<rparr>) = 2 \<and> list_all (\<lambda>c. 0 \<le> c) (counts \<lparr>counts = [1, 0], vals = [1, 0]\<rparr>)
        \<and> length [''basic'', ''advanced''] = 2)
   \<and> (\<exists>bs ab. fst (AB_loop [''basic'', ''advanced''] [0] \<lparr>counts = [1, 0], vals = [1, 0]\<rparr> 5 7 \<lparr>choices = sconst 0, uniforms = sconst (7 / 10)\<rparr>) = Inr (bs, ab)
          \<and> (bs = 5 \<or> bs = 5 + 1) \<and> (ab = 7 \<or> ab = 7 + 1))"
  using bandit_vs_AB_bounded [of 3 "[''basic'', ''advanced'']" "\<lparr>choices = sconst 0, uniforms = sconst (7 / 10)\<rparr>" "\<lparr>counts = [1, 0], vals = [1, 0]\<rparr>" 0 5 7]
  by simp

subsection \<open>Indices out of range\<close>

text \<open>
  C8, as stated, fails for the negative indices \<open>-K, ..., -1\<close>: the code indexes the Python
  lists with the index it is given, so \<open>-1\<close> is the last arm. On two arms,
  \<^verbatim>\<open>update(-1, 1.0)\<close> raises nothing and changes the count and the value of arm 1.
\<close>

theorem update_negative_index_counterexample:
  "(-1::int) \<notin> {0..<2} \<and>
   update \<lparr>counts = [0, 0], vals = [0, 0]\<rparr> (-1) 1 = (Inr (), \<lparr>counts = [0, 1], vals = [0, 1]\<rparr>)"
  by (simp add: update_def py_index_def new_value_def Let_def)

text \<open>
  C8, amended. For an agent with \<open>K\<close> arms and an index \<open>i\<close> with \<open>i \<ge> K\<close> or \<open>i < -K\<close>,
  \<^verbatim>\<open>update(i, reward)\<close> raises Python's \<^verbatim>\<open>IndexError\<close>, which the method does not
  catch, and no count and no value is modified.
\<close>

theorem update_index_error:
  "int (length (counts a)) \<le> i \<or> i < - int (length (counts a)) \<Longrightarrow>
     update a i r = (Inl IndexError, a)"
  by (simp add: update_def py_index_out)

theorem update_index_error_witness:
  "(int (length (counts \<lparr>counts = [3, 1], vals = [1, 0]\<rparr>)) \<le> 2
     \<or> 2 < - int (length (counts \<lparr>counts = [3, 1], vals = [1, 0]\<rparr>)))
   \<and> update \<lparr>counts = [3, 1], vals = [1, 0]\<rparr> 2 1
       = (Inl IndexError, \<lparr>counts = [3, 1], vals = [1, 0]\<rparr>)"
  using update_index_error [of "\<lparr>counts = [3, 1], vals = [1, 0]\<rparr>" 2 1] by simp

subsection \<open>Degenerate configurations\<close>

text \<open>
  C9, as stated, fails: the constructor checks nothing, and \<^verbatim>\<open>UCB1(0)\<close> returns an
  agent with no arm.
\<close>

theorem UCB1_zero_arms_counterexample:
  "UCB1 0 = Inr \<lparr>counts = [], vals = []\<rparr>"
  by (simp add: UCB1_def initialize_def py_range_def)

text \<open>
  C9, amended. Constructing an agent with \<open>K < 1\<close> raises nothing and returns an agent
  with no arm; the first \<^verbatim>\<open>select_arm\<close> on that agent raises \<^verbatim>\<open>ValueError\<close>, from
  \<^verbatim>\<open>max\<close> of an empty list.
\<close>

theorem UCB1_degenerate:
  "K < 1 \<Longrightarrow> UCB1 K = Inr \<lparr>counts = [], vals = []\<rparr>
     \<and> fst (select_arm \<lparr>counts = [], vals = []\<rparr>) = Inl ValueError"
  by (simp add: UCB1_def initialize_def py_range_def select_arm_def ucb_values_def ind_max_def py_max_def)

theorem UCB1_degenerate_witness:
  "(-3::int) < 1 \<and> UCB1 (-3) = Inr \<lparr>counts = [], vals = []\<rparr>
     \<and> fst (select_arm \<lparr>counts = [], vals = []\<rparr>) = Inl ValueError"
  using UCB1_degenerate [of "-3"] by simp

subsection \<open>The training run\<close>

text \<open>
  C10. For every \<open>trials \<ge> 0\<close> and every non-empty list of arm labels, \<^verbatim>\<open>train_UCB1\<close>
  raises nothing and returns an agent whose counts sum to \<open>trials\<close>, are all
  non-negative, and are as many as the labels (as are its values). This holds for every
  outcome of the random draws.
\<close>

theorem train_UCB1_counts:
  assumes "0 \<le> trials" "arm_labels \<noteq> []"
  shows "\<exists>bandit. fst (train_UCB1 trials arm_labels g) = Inr bandit
           \<and> sum_list (counts bandit) = trials
           \<and> (\<forall>c\<in>set (counts bandit). 0 \<le> c)
           \<and> length (counts bandit) = length arm_labels
           \<and> length (vals bandit) = length arm_labels"
proof -
  let ?b = "initialize (int (length arm_labels))"
  have wf: "wf_agent (length arm_labels) ?b" by (rule wf_initialize)
  from train_loop_counts [OF wf assms(2), of "py_range trials" g] obtain b' g' where
    r: "train_loop arm_labels (py_range trials) ?b g = (Inr b', g')"
       "wf_agent (length arm_labels) b'"
       "sum_list (counts b') = sum_list (counts ?b) + int (length (py_range trials))" by blast
  have "sum_list (counts b') = trials"
    using r(3) assms(1) by (simp add: initialize_int py_range_def sum_list_replicate)
  then show ?thesis using r(1,2) by (simp add: train_UCB1_def UCB1_def wf_agent_def)
qed

theorem train_UCB1_counts_witness:
  "(0::int) \<le> 3 \<and> [''basic'', ''advanced''] \<noteq> []
   \<and> (\<exists>bandit. fst (train_UCB1 3 [''basic'', ''advanced''] \<lparr>choices = sconst 0, uniforms = sconst (7 / 10)\<rparr>) = Inr bandit
           \<and> sum_list (counts bandit) = 3
           \<and> (\<forall>c\<in>set (counts bandit). 0 \<le> c)
           \<and> length (counts bandit) = length [''basic'', ''advanced'']
           \<and> length (vals bandit) = length [''basic'', ''advanced''])"
  using train_UCB1_counts [of 3 "[''basic'', ''advanced'']" "\<lparr>choices = sconst 0, uniforms = sconst (7 / 10)\<rparr>"]
  by simp

end
